theory Spec2Isabelle
  imports Main "HOL-Library.AList" "HOL-Library.List_Lexorder" "HOL-Library.Char_ord"
    "HOL-Library.Multiset" "HOL-Library.Word"
begin

section \<open>Values of the host language\<close>

text \<open>
  The graph engine receives its two numeric parameters as query-string values: absent
  (\<open>undefined\<close>), a string, or, when one module passes on what another has parsed, a
  number. A \<open>char\<close> is a UTF-16 code unit below 256 (\<open>CHR 0xA0\<close> is the no-break
  space), so a string is a string of such code units; strings with other code units are
  outside the type. A number is a safe integer, from \<open>-2^53\<close> to \<open>2^53 - 1\<close>, held in a
  54-bit word that \<open>sint\<close> reads: these are the numbers that \<open>String\<close> prints as their
  decimal digits without rounding. Fractions, larger numbers, \<open>NaN\<close>, the infinities and
  the other kinds of value (\<open>null\<close>, booleans, arrays, objects) are outside the type.
\<close>

datatype jsval = JUndefined | JString string | JInt "54 word"

text \<open>A number of the host language, as far as the engine inspects it.\<close>

datatype jsnum = Fin int | NaN | PosInfinity | NegInfinity

fun Number_isFinite :: "jsnum \<Rightarrow> bool" where
  "Number_isFinite (Fin _) = True"
| "Number_isFinite _ = False"

definition isDigit :: "char \<Rightarrow> bool" where
  "isDigit c \<longleftrightarrow> c \<in> set ''0123456789''"

definition digitVal :: "char \<Rightarrow> int" where
  "digitVal c = of_char c - 48"

text \<open>
  The white space and line terminators that \<open>parseInt\<close> and \<open>trim\<close> skip, among the
  code units below 256: tab, line feed, vertical tab, form feed, carriage return, space and
  no-break space. (The others, such as U+FEFF and U+2028, are not below 256.)
\<close>

definition isWhiteSpace :: "char \<Rightarrow> bool" where
  "isWhiteSpace c \<longleftrightarrow>
     c \<in> set [CHR 0x09, CHR 0x0A, CHR 0x0B, CHR 0x0C, CHR 0x0D, CHR '' '', CHR 0xA0]"

definition digitsValue :: "string \<Rightarrow> int" where
  "digitsValue ds = foldl (\<lambda>a c. 10 * a + digitVal c) 0 ds"

text \<open>The decimal digits of an integer: what \<open>String\<close> prints for a safe integer.\<close>

function decimalNat :: "nat \<Rightarrow> string" where
  "decimalNat n =
     (if n < 10 then [char_of (48 + n)] else decimalNat (n div 10) @ [char_of (48 + n mod 10)])"
  by pat_completeness auto
termination
  by (relation "measure id") auto

declare decimalNat.simps [simp del]

definition decimal :: "int \<Rightarrow> string" where
  "decimal i = (if i < 0 then CHR ''-'' # decimalNat (nat (- i)) else decimalNat (nat i))"

fun ToString :: "jsval \<Rightarrow> string" where
  "ToString JUndefined = ''undefined''"
| "ToString (JString s) = s"
| "ToString (JInt w) = decimal (sint w)"

text \<open>
  The least magnitude that the conversion to a double rounds to an infinity:
  halfway between the largest finite double and \<open>2^1024\<close>.
\<close>

definition doubleOverflow :: int where
  "doubleOverflow = 2 ^ 1024 - 2 ^ 970"

text \<open>
  \<open>Number.parseInt(value, 10)\<close>: the string of the value, leading white space skipped, an
  optional sign, then the longest run of decimal digits; no digit gives \<open>NaN\<close>. The
  result is exact below \<open>2^53\<close>; above, the engine only compares it with bounds of at
  most 30, so the rounding of the double is immaterial, but its overflow is not.
\<close>

definition parseInt :: "jsval \<Rightarrow> jsnum" where
  "parseInt v =
     (let S = dropWhile isWhiteSpace (ToString v);
          neg = (case S of c # _ \<Rightarrow> c = CHR ''-'' | [] \<Rightarrow> False);
          S' = (case S of c # r \<Rightarrow> if c = CHR ''-'' \<or> c = CHR ''+'' then r else S | [] \<Rightarrow> S);
          Z = takeWhile isDigit S'
      in if Z = [] then NaN
         else if doubleOverflow \<le> digitsValue Z then (if neg then NegInfinity else PosInfinity)
         else Fin (if neg then - digitsValue Z else digitsValue Z))"

section \<open>Parameters of a graph request\<close>

definition clampInteger :: "jsval \<Rightarrow> int \<Rightarrow> int \<Rightarrow> int \<Rightarrow> int" where
  "clampInteger v lo hi fallback =
     (let parsed = parseInt v
      in if \<not> Number_isFinite parsed then fallback
         else (case parsed of Fin p \<Rightarrow> min hi (max lo p) | _ \<Rightarrow> fallback))"

record params =
  depth :: int
  limit :: int

definition parseGraphParams :: "jsval \<Rightarrow> jsval \<Rightarrow> params" where
  "parseGraphParams d l = \<lparr> depth = clampInteger d 1 3 2, limit = clampInteger l 1 30 20 \<rparr>"

section \<open>Work records and the metadata source\<close>

text \<open>
  A record as the provider sends it, reduced to the fields the adapter reads. A missing
  string field is the empty string, a missing or non-numeric number is \<open>None\<close>;
  \<open>authorships\<close> lists the display names (empty where one is missing) and
  \<open>primary_source\<close> is the display name of the source of the primary location.
\<close>

record raw_work =
  raw_id :: string
  display_name :: string
  publication_year :: "int option"
  raw_cited_by_count :: "int option"
  raw_referenced_works :: "string list"
  authorships :: "string list"
  primary_source :: string
  raw_doi :: string

record work =
  w_id :: string
  w_title :: string
  w_year :: "int option"
  w_cited_by_count :: int
  w_authors :: "string list"
  w_venue :: string
  w_openalex_url :: string
  w_referenced_works :: "string list"
  w_doi :: "string option"

text \<open>
  \<open>normalizeWork\<close>: no record without an id; \<open>x || d\<close> replaces every falsy \<open>x\<close>,
  so a publication year of 0 becomes \<open>null\<close> like a missing one.
\<close>

definition normalizeWork :: "raw_work \<Rightarrow> work option" where
  "normalizeWork r =
     (if raw_id r = [] then None
      else Some \<lparr>
        w_id = raw_id r,
        w_title = (if display_name r = [] then ''Untitled'' else display_name r),
        w_year = (case publication_year r of None \<Rightarrow> None
                  | Some y \<Rightarrow> if y = 0 then None else Some y),
        w_cited_by_count = (case raw_cited_by_count r of None \<Rightarrow> 0 | Some c \<Rightarrow> c),
        w_authors = take 8 (filter (\<lambda>a. a \<noteq> []) (authorships r)),
        w_venue = (if primary_source r = [] then ''Unknown venue'' else primary_source r),
        w_openalex_url = raw_id r,
        w_referenced_works = raw_referenced_works r,
        w_doi = (if raw_doi r = [] then None else Some (raw_doi r)) \<rparr>)"

subsection \<open>Identifiers\<close>

text \<open>
  \<open>normalizeId\<close> searches the pattern \<open>(?:openalex\.org\/|works\/)?(W\d{4,})\<close>, case
  insensitive and unanchored. Neither optional prefix contains a \<open>W\<close> followed by a digit,
  so the group captured is the leftmost \<open>W\<close> or \<open>w\<close> followed by at least four digits,
  with all the digits that follow it.
\<close>

definition matchWork :: "string \<Rightarrow> string option" where
  "matchWork s =
     (case s of [] \<Rightarrow> None
      | c # rest \<Rightarrow>
          if (c = CHR ''W'' \<or> c = CHR ''w'') \<and> 4 \<le> length (takeWhile isDigit rest)
          then Some (takeWhile isDigit rest) else None)"

fun findWork :: "string \<Rightarrow> string option" where
  "findWork [] = None"
| "findWork (c # rest) =
     (case matchWork (c # rest) of Some ds \<Rightarrow> Some ds | None \<Rightarrow> findWork rest)"

definition normalizeId :: "string \<Rightarrow> string option" where
  "normalizeId i =
     (case findWork i of None \<Rightarrow> None
      | Some ds \<Rightarrow> Some (''https://openalex.org/W'' @ ds))"

definition toOpenAlexId :: "string \<Rightarrow> string option" where
  "toOpenAlexId v = normalizeId v"

subsection \<open>Errors, requests and the state of one graph request\<close>

datatype cause = BAD_WORK_ID | NOT_FOUND

datatype error = Error (message: string) (cause: "cause option")

text \<open>
  The three requests the adapter sends: one work by id, a batch of works by id, and the
  works citing an id (with the page size and the page). The provider answers a request
  with its records or fails; \<open>Inl\<close> carries the message of the error that
  \<open>requestOpenAlex\<close> then throws, which has no cause.
\<close>

datatype request =
  WorkRequest string
| WorksRequest "string list"
| CitesRequest string nat nat

type_synonym upstream = "request \<Rightarrow> string + raw_work list"

datatype tag = center | backward | forward | both

datatype side = references | cited_by

text \<open>A graph node; the floating-point rendering hint \<open>size\<close> is left out.\<close>

record node =
  n_id :: string
  n_title :: string
  n_year :: "int option"
  n_cited_by_count :: int
  n_authors :: "string list"
  n_venue :: string
  n_openalex_url :: string
  n_side :: tag
  n_depth :: nat

record link =
  source :: string
  target :: string
  ltype :: side
  direction :: tag

text \<open>
  The maps of one \<open>buildGraph\<close> call keep their insertion order, so they are association
  lists updated in place (\<open>AList.update\<close>); \<open>requests\<close> records every request sent.
\<close>

record state =
  nodeMap :: "(string \<times> node) list"
  linkMap :: "(string \<times> link) list"
  workCache :: "(string \<times> work) list"
  requests :: "request list"

definition emptyState :: state where
  "emptyState = \<lparr> nodeMap = [], linkMap = [], workCache = [], requests = [] \<rparr>"

text \<open>
  An asynchronous function is a function of the state that returns its result, or the
  error it throws, with the state it leaves. Concurrent calls of one \<open>Promise.all\<close> are
  run one after the other, in the order of the array.
\<close>

type_synonym 'a io = "state \<Rightarrow> (error + 'a) \<times> state"

definition ret :: "'a \<Rightarrow> 'a io" where
  "ret x = (\<lambda>s. (Inr x, s))"

definition andThen :: "'a io \<Rightarrow> ('a \<Rightarrow> 'b io) \<Rightarrow> 'b io" where
  "andThen m f = (\<lambda>s. case m s of (Inl e, s') \<Rightarrow> (Inl e, s') | (Inr x, s') \<Rightarrow> f x s')"

fun forEach :: "('a \<Rightarrow> 'b io) \<Rightarrow> 'a list \<Rightarrow> 'b list io" where
  "forEach f [] = ret []"
| "forEach f (x # xs) = andThen (f x) (\<lambda>y. andThen (forEach f xs) (\<lambda>ys. ret (y # ys)))"

definition requestOpenAlex :: "upstream \<Rightarrow> request \<Rightarrow> raw_work list io" where
  "requestOpenAlex up req =
     (\<lambda>s. let s' = s\<lparr> requests := requests s @ [req] \<rparr>
          in case up req of
               Inl msg \<Rightarrow> (Inl (Error msg None), s')
             | Inr rs \<Rightarrow> (Inr rs, s'))"

subsection \<open>The adapter\<close>

definition getWorkById :: "upstream \<Rightarrow> string \<Rightarrow> work option io" where
  "getWorkById up workId =
     (case normalizeId workId of
        None \<Rightarrow> ret None
      | Some normalized \<Rightarrow>
          andThen (requestOpenAlex up (WorkRequest normalized))
            (\<lambda>rs. ret (case rs of [] \<Rightarrow> None | r # _ \<Rightarrow> normalizeWork r)))"

text \<open>\<open>[...new Set(xs)]\<close>: the first occurrence of every element, in order.\<close>

definition dedupe :: "'a list \<Rightarrow> 'a list" where
  "dedupe xs = fold (\<lambda>x acc. if x \<in> set acc then acc else acc @ [x]) xs []"

text \<open>
  \<open>chunkArray\<close>: slices of \<open>n\<close> items from the front. Its only call passes 40; with the
  size 0 the loop of the source would not end, and the model returns no chunk.
\<close>

function chunkArray :: "'a list \<Rightarrow> nat \<Rightarrow> 'a list list" where
  "chunkArray [] n = []"
| "chunkArray (x # xs) n =
     (if n = 0 then [] else take n (x # xs) # chunkArray (drop n (x # xs)) n)"
  by pat_completeness auto
termination
  by (relation "measure (\<lambda>(items, n). length items)") auto

definition getWorksByIds :: "upstream \<Rightarrow> string list \<Rightarrow> work list io" where
  "getWorksByIds up ids =
     (let normalizedIds = dedupe (List.map_filter normalizeId ids)
      in if normalizedIds = [] then ret []
         else andThen
                (forEach
                   (\<lambda>chunk. andThen (requestOpenAlex up (WorksRequest chunk))
                      (\<lambda>rs. ret (List.map_filter normalizeWork rs)))
                   (chunkArray normalizedIds 40))
                (\<lambda>responses. ret (concat responses)))"

definition getCitingWorks :: "upstream \<Rightarrow> string \<Rightarrow> nat \<Rightarrow> work list io" where
  "getCitingWorks up workId lim =
     (case normalizeId workId of
        None \<Rightarrow> ret []
      | Some normalized \<Rightarrow>
          andThen (requestOpenAlex up (CitesRequest normalized lim 1))
            (\<lambda>rs. ret (List.map_filter normalizeWork rs)))"

section \<open>The multi-level graph engine\<close>

text \<open>
  The functions of the module whose \<open>buildGraph\<close> expands both sides level by level.
  \<open>Array.prototype.sort\<close> is stable; for a comparator that is a total preorder every stable
  sort returns the list that this insertion sort returns.
\<close>

fun insertWith :: "('a \<Rightarrow> 'a \<Rightarrow> int) \<Rightarrow> 'a \<Rightarrow> 'a list \<Rightarrow> 'a list" where
  "insertWith cmp x [] = [x]"
| "insertWith cmp x (y # ys) = (if cmp x y \<le> 0 then x # y # ys else y # insertWith cmp x ys)"

definition sortWith :: "('a \<Rightarrow> 'a \<Rightarrow> int) \<Rightarrow> 'a list \<Rightarrow> 'a list" where
  "sortWith cmp xs = foldr (insertWith cmp) xs []"

text \<open>
  Work ids are compared with \<open><\<close> when a parent is chosen and with \<open>localeCompare\<close> in the
  comparators. On canonical ids (one prefix, then \<open>W\<close> and digits) the two agree; both are
  the lexicographic order of the strings here.
\<close>

definition localeCompare :: "string \<Rightarrow> string \<Rightarrow> int" where
  "localeCompare a b = (if a < b then - 1 else if b < a then 1 else 0)"

definition influenceCmp :: "work \<Rightarrow> work \<Rightarrow> int" where
  "influenceCmp a b =
     (if w_cited_by_count b \<noteq> w_cited_by_count a
      then w_cited_by_count b - w_cited_by_count a
      else localeCompare (w_id a) (w_id b))"

definition sortByInfluence :: "work list \<Rightarrow> work list" where
  "sortByInfluence works = sortWith influenceCmp works"

text \<open>\<open>Number(x.year)\<close> for a year that is a number or \<open>null\<close>: \<open>Number(null)\<close> is 0.\<close>

fun Number_of_year :: "int option \<Rightarrow> jsnum" where
  "Number_of_year None = Fin 0"
| "Number_of_year (Some y) = Fin y"

text \<open>\<open>isTemporallyConsistent\<close>, given the \<open>year\<close> fields of the parent and of the child.\<close>

definition isTemporallyConsistent :: "int option \<Rightarrow> int option \<Rightarrow> side \<Rightarrow> bool" where
  "isTemporallyConsistent parent_year child_year sd =
     (let parentYear = Number_of_year parent_year;
          childYear = Number_of_year child_year
      in if \<not> Number_isFinite parentYear \<or> \<not> Number_isFinite childYear then True
         else (case (parentYear, childYear) of
                 (Fin p, Fin c) \<Rightarrow> if sd = references then c \<le> p else c \<ge> p
               | _ \<Rightarrow> True))"

definition isLinkTemporallyConsistent :: "link \<Rightarrow> (string \<times> node) list \<Rightarrow> bool" where
  "isLinkTemporallyConsistent l nm =
     (case (map_of nm (source l), map_of nm (target l)) of
        (Some s, Some t) \<Rightarrow> isTemporallyConsistent (n_year s) (n_year t) (ltype l)
      | _ \<Rightarrow> False)"

definition cacheWork :: "work \<Rightarrow> state \<Rightarrow> state" where
  "cacheWork w s =
     (if w_id w \<noteq> [] then s\<lparr> workCache := AList.update (w_id w) w (workCache s) \<rparr> else s)"

definition nodeOf :: "work \<Rightarrow> tag \<Rightarrow> nat \<Rightarrow> node" where
  "nodeOf w sd d =
     \<lparr> n_id = w_id w, n_title = w_title w, n_year = w_year w,
       n_cited_by_count = w_cited_by_count w, n_authors = w_authors w, n_venue = w_venue w,
       n_openalex_url = w_openalex_url w, n_side = sd, n_depth = d \<rparr>"

definition addNode :: "work \<Rightarrow> tag \<Rightarrow> nat \<Rightarrow> state \<Rightarrow> state" where
  "addNode w sd nodeDepth s0 =
     (let s = cacheWork w s0;
          next = nodeOf w sd nodeDepth
      in case map_of (nodeMap s) (w_id w) of
           None \<Rightarrow> s\<lparr> nodeMap := AList.update (w_id w) next (nodeMap s) \<rparr>
         | Some existing \<Rightarrow>
             let mergedSide =
                   (if n_side existing = sd \<or> n_side existing = center then n_side existing
                    else if sd = center then center else both)
             in s\<lparr> nodeMap :=
                    AList.update (w_id w)
                      (next\<lparr> n_side := mergedSide, n_depth := min (n_depth existing) nodeDepth \<rparr>)
                      (nodeMap s) \<rparr>)"

fun sideName :: "side \<Rightarrow> string" where
  "sideName references = ''references''"
| "sideName cited_by = ''cited_by''"

definition linkKey :: "string \<Rightarrow> string \<Rightarrow> side \<Rightarrow> string" where
  "linkKey src tgt ty = src @ ''->'' @ tgt @ '':'' @ sideName ty"

definition addLink :: "string \<Rightarrow> string \<Rightarrow> side \<Rightarrow> tag \<Rightarrow> state \<Rightarrow> state" where
  "addLink src tgt ty dir s =
     (let key = linkKey src tgt ty
      in if map_of (linkMap s) key \<noteq> None then s
         else s\<lparr> linkMap :=
                AList.update key \<lparr> source = src, target = tgt, ltype = ty, direction = dir \<rparr>
                  (linkMap s) \<rparr>)"

definition REFERENCE_CANDIDATE_CAP :: nat where
  "REFERENCE_CANDIDATE_CAP = 200"

text \<open>\<open>new Map(works.map((work) => [work.id, work]))\<close>: a later record replaces an earlier one.\<close>

definition indexById :: "work list \<Rightarrow> (string \<times> work) list" where
  "indexById works = fold (\<lambda>w m. AList.update (w_id w) w m) works []"

definition getTopReferences :: "upstream \<Rightarrow> work \<Rightarrow> nat \<Rightarrow> work list io" where
  "getTopReferences up parentWork sideLimit =
     (let refs = w_referenced_works parentWork
      in if refs = [] then ret []
         else andThen (getWorksByIds up (take REFERENCE_CANDIDATE_CAP refs))
                (\<lambda>works.
                   let worksById = indexById works;
                       ordered = List.map_filter (map_of worksById) refs
                   in ret (take sideLimit (sortByInfluence ordered))))"

definition getTopCitations :: "upstream \<Rightarrow> string \<Rightarrow> nat \<Rightarrow> work list io" where
  "getTopCitations up parentId sideLimit =
     andThen (getCitingWorks up parentId (min 100 (sideLimit * 3)))
       (\<lambda>rows. ret (take sideLimit (sortByInfluence rows)))"

definition getWorkOrFetch :: "upstream \<Rightarrow> string \<Rightarrow> work option io" where
  "getWorkOrFetch up i =
     (\<lambda>s. case map_of (workCache s) i of
            Some cached \<Rightarrow> (Inr (Some cached), s)
          | None \<Rightarrow>
              andThen (getWorkById up i)
                (\<lambda>fetched. case fetched of
                     Some f \<Rightarrow> (\<lambda>s'. (Inr (Some f), cacheWork f s'))
                   | None \<Rightarrow> ret None) s)"

text \<open>One call of the function mapped over the frontier: the pairs one parent contributes.\<close>

definition expandParent :: "upstream \<Rightarrow> side \<Rightarrow> nat \<Rightarrow> string \<Rightarrow> (work \<times> work) list io" where
  "expandParent up sd perParentLimit parentId =
     andThen (getWorkOrFetch up parentId)
       (\<lambda>parent. case parent of
            None \<Rightarrow> ret []
          | Some p \<Rightarrow>
              andThen (if sd = references then getTopReferences up p perParentLimit
                       else getTopCitations up (w_id p) perParentLimit)
                (\<lambda>children.
                   ret (map (\<lambda>child. (p, child))
                          (filter (\<lambda>child. isTemporallyConsistent (w_year p) (w_year child) sd)
                             children))))"

text \<open>The map \<open>uniqueByChild\<close> after the loop over the flattened pairs (parent, child).\<close>

definition uniqueByChild :: "(work \<times> work) list \<Rightarrow> (string \<times> work \<times> work) list" where
  "uniqueByChild flattened =
     fold (\<lambda>entry m.
             case map_of m (w_id (snd entry)) of
               None \<Rightarrow> AList.update (w_id (snd entry)) entry m
             | Some existing \<Rightarrow>
                 if w_id (fst entry) < w_id (fst existing)
                 then AList.update (w_id (snd entry)) entry m else m)
       flattened []"

definition pairCmp :: "work \<times> work \<Rightarrow> work \<times> work \<Rightarrow> int" where
  "pairCmp a b =
     (if w_cited_by_count (snd b) \<noteq> w_cited_by_count (snd a)
      then w_cited_by_count (snd b) - w_cited_by_count (snd a)
      else localeCompare (w_id (snd a)) (w_id (snd b)))"

definition limitedPairs :: "nat \<Rightarrow> (work \<times> work) list \<Rightarrow> (work \<times> work) list" where
  "limitedPairs lim flattened = take lim (sortWith pairCmp (map snd (uniqueByChild flattened)))"

definition sideTag :: "side \<Rightarrow> tag" where
  "sideTag sd = (if sd = references then backward else forward)"

definition acceptPairs :: "side \<Rightarrow> nat \<Rightarrow> (work \<times> work) list \<Rightarrow> state \<Rightarrow> state" where
  "acceptPairs sd level limited s =
     fold (\<lambda>(parent, child) s.
             addLink (w_id parent) (w_id child) sd (sideTag sd) (addNode child (sideTag sd) level s))
       limited s"

text \<open>The pairs of one level before deduplication: \<open>expansionSets.flat()\<close>.\<close>

definition levelPairs :: "upstream \<Rightarrow> side \<Rightarrow> nat \<Rightarrow> string list \<Rightarrow> (work \<times> work) list io" where
  "levelPairs up sd lim frontier =
     andThen (forEach (expandParent up sd (max 1 (lim div length frontier))) frontier)
       (\<lambda>expansionSets. ret (concat expansionSets))"

text \<open>
  The loop of \<open>expandSide\<close> from level \<open>level\<close> on, with \<open>k\<close> levels left to run.
\<close>

fun expandFrom :: "upstream \<Rightarrow> side \<Rightarrow> nat \<Rightarrow> nat \<Rightarrow> nat \<Rightarrow> string list \<Rightarrow> unit io" where
  "expandFrom up sd lim level 0 frontier = ret ()"
| "expandFrom up sd lim level (Suc k) frontier =
     (if frontier = [] then ret ()
      else andThen (levelPairs up sd lim frontier)
             (\<lambda>flattened s.
                let limited = limitedPairs lim flattened
                in expandFrom up sd lim (Suc level) k (dedupe (map (\<lambda>e. w_id (snd e)) limited))
                     (acceptPairs sd level limited s)))"

definition expandSide :: "upstream \<Rightarrow> side \<Rightarrow> nat \<Rightarrow> nat \<Rightarrow> string \<Rightarrow> unit io" where
  "expandSide up sd dep lim centerId = expandFrom up sd lim 1 dep [centerId]"

record meta =
  centerWorkId :: string
  meta_depth :: int
  requestedDepth :: "int option"
  meta_limit :: int

record graph =
  meta :: meta
  nodes :: "node list"
  links :: "link list"

text \<open>The statements of \<open>buildGraph\<close> after both sides have been expanded.\<close>

definition assemble :: "work \<Rightarrow> int \<Rightarrow> int \<Rightarrow> state \<Rightarrow> graph" where
  "assemble c dep lim s =
     (let nodes = map snd (nodeMap s);
          linkCandidates = map snd (linkMap s);
          stableNodeMap = fold (\<lambda>n m. AList.update (n_id n) n m) nodes [];
          links = filter (\<lambda>l. isLinkTemporallyConsistent l stableNodeMap) linkCandidates;
          connectedNodeIds = w_id c # concat (map (\<lambda>l. [source l, target l]) links);
          connectedNodes = filter (\<lambda>n. n_id n \<in> set connectedNodeIds) nodes
      in \<lparr> meta = \<lparr> centerWorkId = w_id c, meta_depth = dep, requestedDepth = None,
                    meta_limit = lim \<rparr>,
           nodes = connectedNodes, links = links \<rparr>)"

text \<open>
  \<open>buildGraph\<close> as a computation on the state of the request. The two sides share the
  maps and run concurrently; the model runs the references side first.
\<close>

definition buildGraphIO :: "upstream \<Rightarrow> string \<Rightarrow> jsval \<Rightarrow> jsval \<Rightarrow> graph io" where
  "buildGraphIO up workIdInput reqDepth reqLimit =
     (case toOpenAlexId workIdInput of
        None \<Rightarrow>
          (\<lambda>s. (Inl (Error ''Invalid workId. Use an OpenAlex Work ID (for example W2741809807).''
                        (Some BAD_WORK_ID)), s))
      | Some workId \<Rightarrow>
          (let p = parseGraphParams reqDepth reqLimit
           in andThen (getWorkById up workId)
                (\<lambda>found. case found of
                     None \<Rightarrow>
                       (\<lambda>s. (Inl (Error ''Center work not found in OpenAlex.'' (Some NOT_FOUND)), s))
                   | Some c \<Rightarrow>
                       (\<lambda>s. andThen (expandSide up references (nat (depth p)) (nat (limit p)) (w_id c))
                              (\<lambda>_. andThen
                                      (expandSide up cited_by (nat (depth p)) (nat (limit p)) (w_id c))
                                      (\<lambda>_ s'. (Inr (assemble c (depth p) (limit p) s'), s')))
                              (addNode c center 0 s)))))"

text \<open>A call of \<open>buildGraph\<close>: its result or error, and the requests it has sent.\<close>

definition buildGraph :: "upstream \<Rightarrow> string \<Rightarrow> jsval \<Rightarrow> jsval \<Rightarrow> (error + graph) \<times> request list" where
  "buildGraph up workIdInput reqDepth reqLimit =
     (case buildGraphIO up workIdInput reqDepth reqLimit emptyState of
        (r, s) \<Rightarrow> (r, requests s))"

section \<open>The single-level graph module\<close>

text \<open>
  The functions of \<open>graph.js\<close>, whose \<open>buildGraph\<close> expands the center once on each side.
  \<open>clampInteger\<close>, \<open>parseGraphParams\<close> and \<open>addLink\<close> are those above; the functions that
  differ carry the suffix \<open>_single\<close>.
\<close>

definition SIDE_LIMIT_CAP :: int where
  "SIDE_LIMIT_CAP = 20"

text \<open>
  The comparator of \<open>sortByInfluence\<close> in \<open>graph.js\<close>. A normalized citation count is
  always finite. An unknown year counts as \<open>-Infinity\<close>; where the difference of the years
  is infinite the model returns its sign.
\<close>

definition influenceCmp_single :: "work \<Rightarrow> work \<Rightarrow> int" where
  "influenceCmp_single a b =
     (let aCitedBy = w_cited_by_count a; bCitedBy = w_cited_by_count b
      in if bCitedBy \<noteq> aCitedBy then bCitedBy - aCitedBy
         else if w_year b \<noteq> w_year a
              then (case (w_year b, w_year a) of
                      (Some bYear, Some aYear) \<Rightarrow> bYear - aYear
                    | (Some bYear, None) \<Rightarrow> 1
                    | (None, _) \<Rightarrow> - 1)
              else localeCompare (w_id a) (w_id b))"

definition sortByInfluence_single :: "work list \<Rightarrow> work list" where
  "sortByInfluence_single works = sortWith influenceCmp_single works"

definition addNode_single :: "work \<Rightarrow> tag \<Rightarrow> nat \<Rightarrow> state \<Rightarrow> state" where
  "addNode_single w sd nodeDepth s =
     (let next = nodeOf w sd nodeDepth
      in case map_of (nodeMap s) (w_id w) of
           None \<Rightarrow> s\<lparr> nodeMap := AList.update (w_id w) next (nodeMap s) \<rparr>
         | Some existing \<Rightarrow>
             let mergedSide =
                   (if n_side existing = center \<or> sd = center then center
                    else if n_side existing \<noteq> sd then both
                    else n_side existing)
             in s\<lparr> nodeMap :=
                    AList.update (w_id w)
                      (next\<lparr> n_side := mergedSide, n_depth := min (n_depth existing) nodeDepth \<rparr>)
                      (nodeMap s) \<rparr>)"

definition buildGraphIO_single :: "upstream \<Rightarrow> string \<Rightarrow> jsval \<Rightarrow> jsval \<Rightarrow> graph io" where
  "buildGraphIO_single up workIdInput reqDepth reqLimit =
     (case toOpenAlexId workIdInput of
        None \<Rightarrow>
          (\<lambda>s. (Inl (Error ''Invalid workId. Use an OpenAlex Work ID (for example W2741809807).''
                        (Some BAD_WORK_ID)), s))
      | Some workId \<Rightarrow>
          (let p = parseGraphParams reqDepth reqLimit;
               sideLimit = min SIDE_LIMIT_CAP (limit p)
           in andThen (getWorkById up workId)
                (\<lambda>found. case found of
                     None \<Rightarrow>
                       (\<lambda>s. (Inl (Error ''Center work not found in OpenAlex.'' (Some NOT_FOUND)), s))
                   | Some c \<Rightarrow>
                       (\<lambda>s. andThen (getWorksByIds up (w_referenced_works c))
                              (\<lambda>referenceCandidates.
                                 andThen (getCitingWorks up (w_id c) (nat sideLimit))
                                   (\<lambda>citationCandidates s1.
                                      let topReferences =
                                            take (nat sideLimit)
                                              (sortByInfluence_single referenceCandidates);
                                          topCitations =
                                            take (nat sideLimit)
                                              (sortByInfluence_single citationCandidates);
                                          s2 = fold (\<lambda>referenceWork s.
                                                       addLink (w_id c) (w_id referenceWork)
                                                         references backward
                                                         (addNode_single referenceWork backward 1 s))
                                                 topReferences s1;
                                          s3 = fold (\<lambda>citingWork s.
                                                       addLink (w_id c) (w_id citingWork)
                                                         cited_by forward
                                                         (addNode_single citingWork forward 1 s))
                                                 topCitations s2
                                      in (Inr \<lparr> meta = \<lparr> centerWorkId = w_id c, meta_depth = 1,
                                                          requestedDepth = Some (depth p),
                                                          meta_limit = sideLimit \<rparr>,
                                                 nodes = map snd (nodeMap s3),
                                                 links = map snd (linkMap s3) \<rparr>, s3)))
                              (addNode_single c center 0 s)))))"

definition buildGraph_single ::
  "upstream \<Rightarrow> string \<Rightarrow> jsval \<Rightarrow> jsval \<Rightarrow> (error + graph) \<times> request list" where
  "buildGraph_single up workIdInput reqDepth reqLimit =
     (case buildGraphIO_single up workIdInput reqDepth reqLimit emptyState of
        (r, s) \<Rightarrow> (r, requests s))"

section \<open>The route that serves a graph\<close>

definition trim :: "string \<Rightarrow> string" where
  "trim s = rev (dropWhile isWhiteSpace (rev (dropWhile isWhiteSpace s)))"

text \<open>
  The handler of \<open>/graph\<close>, the same in both versions of \<open>index.js\<close>, for either
  \<open>buildGraph\<close>: the status of the response and its body, an error message or the graph.
\<close>

definition graphRoute ::
  "(string \<Rightarrow> jsval \<Rightarrow> jsval \<Rightarrow> (error + graph) \<times> request list) \<Rightarrow>
   string option \<Rightarrow> jsval \<Rightarrow> jsval \<Rightarrow> nat \<times> (string + graph)" where
  "graphRoute build workIdParam depthParam limitParam =
     (let workId = trim (case workIdParam of None \<Rightarrow> [] | Some v \<Rightarrow> v)
      in if workId = [] then (400, Inl ''Missing required query param: workId'')
         else (let p = parseGraphParams depthParam limitParam
               in case fst (build workId (JInt (of_int (depth p))) (JInt (of_int (limit p)))) of
                    Inr g \<Rightarrow> (200, Inr g)
                  | Inl e \<Rightarrow>
                      if cause e = Some BAD_WORK_ID then (400, Inl (message e))
                      else if cause e = Some NOT_FOUND then (404, Inl (message e))
                      else (502, Inl (if message e = [] then ''Graph request failed''
                                      else message e))))"

section \<open>Words of the specification\<close>

text \<open>
  A string starts with an integer when, after leading white space and an optional sign, a
  decimal digit follows; the integer is the longest run of digits there, negated after a
  minus sign. \<open>startsWithInteger s neg ds\<close> says that \<open>s\<close> starts with the digits \<open>ds\<close>,
  after a minus sign if \<open>neg\<close>. Otherwise the string is not numeric: no decimal digit
  follows the white space and the sign.
\<close>

definition startsWithInteger :: "string \<Rightarrow> bool \<Rightarrow> string \<Rightarrow> bool" where
  "startsWithInteger s neg ds \<longleftrightarrow>
     ds \<noteq> [] \<and> (\<forall>c \<in> set ds. isDigit c) \<and>
     (\<exists>ws sg rest.
        s = ws @ sg @ ds @ rest \<and> (\<forall>c \<in> set ws. isWhiteSpace c) \<and>
        (if neg then sg = ''-'' else sg = [] \<or> sg = ''+'') \<and>
        (rest = [] \<or> \<not> isDigit (hd rest)))"

definition noLeadingInteger :: "string \<Rightarrow> bool" where
  "noLeadingInteger s =
     (case dropWhile isWhiteSpace s of
        [] \<Rightarrow> True
      | c # r \<Rightarrow>
          if c = CHR ''-'' \<or> c = CHR ''+''
          then (case r of [] \<Rightarrow> True | c' # _ \<Rightarrow> \<not> isDigit c')
          else \<not> isDigit c)"

text \<open>
  The order of the specification, \<open>(cited_by_count desc, id asc)\<close>, and the order the
  single-level module ranks by, with the year (descending, unknown last) between the two keys.
\<close>

definition rankedBefore :: "work \<Rightarrow> work \<Rightarrow> bool" where
  "rankedBefore a b \<longleftrightarrow>
     w_cited_by_count a > w_cited_by_count b \<or>
     (w_cited_by_count a = w_cited_by_count b \<and> w_id a \<le> w_id b)"

fun laterYear :: "int option \<Rightarrow> int option \<Rightarrow> bool" where
  "laterYear (Some a) (Some b) = (a > b)"
| "laterYear (Some a) None = True"
| "laterYear None _ = False"

definition rankedBefore_single :: "work \<Rightarrow> work \<Rightarrow> bool" where
  "rankedBefore_single a b \<longleftrightarrow>
     w_cited_by_count a > w_cited_by_count b \<or>
     (w_cited_by_count a = w_cited_by_count b \<and>
        (laterYear (w_year a) (w_year b) \<or> (w_year a = w_year b \<and> w_id a \<le> w_id b)))"

text \<open>
  \<open>ys\<close> are the top \<open>k\<close> of \<open>xs\<close> in the order \<open>R\<close>: \<open>k\<close> of them (all, if there are
  fewer), in order, and no element left out is ranked strictly before one that is kept.
\<close>

definition topRanked :: "('a \<Rightarrow> 'a \<Rightarrow> bool) \<Rightarrow> nat \<Rightarrow> 'a list \<Rightarrow> 'a list \<Rightarrow> bool" where
  "topRanked R k xs ys \<longleftrightarrow>
     length ys = min k (length xs) \<and> sorted_wrt R ys \<and> mset ys \<subseteq># mset xs \<and>
     (\<forall>x \<in># mset xs - mset ys. \<forall>y \<in> set ys. R y x)"

text \<open>The type of a link determines its direction.\<close>

definition coupled :: "link \<Rightarrow> bool" where
  "coupled l \<longleftrightarrow>
     (direction l = backward \<longleftrightarrow> ltype l = references) \<and>
     (direction l = forward \<longleftrightarrow> ltype l = cited_by)"

text \<open>
  Two nodes are connected by a list of links when a path of links leads from one to the
  other, each link taken in either direction; a node that links reach from the center along
  their direction is, in particular, connected to it.
\<close>

inductive connected :: "link list \<Rightarrow> string \<Rightarrow> string \<Rightarrow> bool" for ls :: "link list" and a :: string where
  here: "connected ls a a"
| along: "connected ls a b \<Longrightarrow> l \<in> set ls \<Longrightarrow> source l = b \<Longrightarrow> connected ls a (target l)"
| against: "connected ls a b \<Longrightarrow> l \<in> set ls \<Longrightarrow> target l = b \<Longrightarrow> connected ls a (source l)"

inductive reachable :: "link list \<Rightarrow> string \<Rightarrow> string \<Rightarrow> bool" for ls :: "link list" and a :: string where
  start: "reachable ls a a"
| step: "reachable ls a b \<Longrightarrow> l \<in> set ls \<Longrightarrow> source l = b \<Longrightarrow> reachable ls a (target l)"

section \<open>Invariants of a request\<close>

text \<open>A computation that leaves the node map and the link map as they are.\<close>

definition keepsGraph :: "'a io \<Rightarrow> bool" where
  "keepsGraph m \<longleftrightarrow> (\<forall>s. nodeMap (snd (m s)) = nodeMap s \<and> linkMap (snd (m s)) = linkMap s)"

text \<open>A computation whose errors carry no cause.\<close>

definition failsUpstream :: "'a io \<Rightarrow> bool" where
  "failsUpstream m \<longleftrightarrow> (\<forall>s e. fst (m s) = Inl e \<longrightarrow> cause e = None)"

text \<open>Every link of the link map has the direction of its type.\<close>

definition linksCoupled :: "state \<Rightarrow> bool" where
  "linksCoupled s \<longleftrightarrow> (\<forall>l \<in> snd ` set (linkMap s). coupled l)"

text \<open>
  The node map has one entry per id, stored under the id of its node; the entry of the
  center, and no other, has the side \<open>center\<close>, and its depth is 0.
\<close>

definition centerKept :: "string \<Rightarrow> state \<Rightarrow> bool" where
  "centerKept cid s \<longleftrightarrow>
     distinct (map fst (nodeMap s)) \<and>
     (\<forall>(k, n) \<in> set (nodeMap s). n_id n = k \<and> (n_side n = center \<longleftrightarrow> k = cid)) \<and>
     (\<exists>n. map_of (nodeMap s) cid = Some n \<and> n_side n = center \<and> n_depth n = 0)"

section \<open>Parsing the parameters\<close>

lemma digit_char_facts:
  assumes "(d::nat) < 10"
  shows "isDigit (char_of (48 + d))" and "digitVal (char_of (48 + d)) = int d"
proof -
  have "\<forall>d \<in> set [0..<10]. isDigit (char_of (48 + d)) \<and> digitVal (char_of (48 + d)) = int d"
    by code_simp
  then have "isDigit (char_of (48 + d)) \<and> digitVal (char_of (48 + d)) = int d"
    using assms by simp
  then show "isDigit (char_of (48 + d))" and "digitVal (char_of (48 + d)) = int d"
    by blast+
qed

lemma isDigit_not_sign_or_space:
  "isDigit c \<Longrightarrow> \<not> isWhiteSpace c \<and> c \<noteq> CHR ''-'' \<and> c \<noteq> CHR ''+''"
  by (auto simp: isDigit_def isWhiteSpace_def)

lemma decimalNat_digits: "\<forall>c \<in> set (decimalNat n). isDigit c"
proof (induction n rule: decimalNat.induct)
  case (1 n)
  show ?case
  proof (cases "n < 10")
    case True
    then show ?thesis by (subst decimalNat.simps) (simp add: digit_char_facts)
  next
    case False
    have "n mod 10 < 10" by simp
    with False 1 show ?thesis by (subst decimalNat.simps) (simp add: digit_char_facts)
  qed
qed

lemma digitsValue_snoc: "digitsValue (ds @ [c]) = 10 * digitsValue ds + digitVal c"
  by (simp add: digitsValue_def)

lemma decimalNat_value: "digitsValue (decimalNat n) = int n"
proof (induction n rule: decimalNat.induct)
  case (1 n)
  show ?case
  proof (cases "n < 10")
    case True
    then show ?thesis by (subst decimalNat.simps) (simp add: digit_char_facts digitsValue_def)
  next
    case False
    have "n mod 10 < 10" by simp
    then have "digitVal (char_of (48 + n mod 10)) = int (n mod 10)" by (rule digit_char_facts)
    moreover have "int n = 10 * int (n div 10) + int (n mod 10)"
      by presburger
    ultimately show ?thesis using False 1
      by (subst decimalNat.simps) (simp add: digitsValue_snoc)
  qed
qed

lemma decimalNat_nonempty: "decimalNat n \<noteq> []"
  by (subst decimalNat.simps) simp

lemma takeWhile_all: "\<forall>c \<in> set xs. P c \<Longrightarrow> takeWhile P xs = xs"
  by (induction xs) auto

lemma parseInt_signed_digits:
  assumes "\<forall>c \<in> set ds. isDigit c" and "ds \<noteq> []"
  shows "parseInt (JString (CHR ''-'' # ds)) =
           (if doubleOverflow \<le> digitsValue ds then NegInfinity else Fin (- digitsValue ds))"
  using assms by (simp add: parseInt_def isWhiteSpace_def Let_def takeWhile_all)

lemma parseInt_digits:
  assumes "\<forall>c \<in> set ds. isDigit c" and "ds \<noteq> []"
  shows "parseInt (JString ds) =
           (if doubleOverflow \<le> digitsValue ds then PosInfinity else Fin (digitsValue ds))"
proof -
  obtain c r where cr: "ds = c # r" using assms(2) by (cases ds) auto
  with assms(1) have "isDigit c" by simp
  then have c: "\<not> isWhiteSpace c" "c \<noteq> CHR ''-''" "c \<noteq> CHR ''+''"
    using isDigit_not_sign_or_space by blast+
  then have d: "dropWhile isWhiteSpace ds = ds" using cr by simp
  show ?thesis
    unfolding parseInt_def ToString.simps d Let_def
    using assms c by (simp add: cr takeWhile_all)
qed

lemma parseInt_decimal:
  assumes "\<bar>i\<bar> < doubleOverflow"
  shows "parseInt (JString (decimal i)) = Fin i"
proof -
  let ?ds = "decimalNat (nat \<bar>i\<bar>)"
  have tw: "\<forall>c \<in> set ?ds. isDigit c"
    by (rule decimalNat_digits)
  have v: "digitsValue ?ds = \<bar>i\<bar>"
    using decimalNat_value[of "nat \<bar>i\<bar>"] by simp
  show ?thesis
  proof (cases "i < 0")
    case True
    then have "decimal i = CHR ''-'' # ?ds" by (simp add: decimal_def abs_if)
    then show ?thesis
      using True v assms parseInt_signed_digits[OF tw decimalNat_nonempty] by simp
  next
    case False
    then have "decimal i = ?ds" by (simp add: decimal_def abs_if)
    then show ?thesis
      using False v assms parseInt_digits[OF tw decimalNat_nonempty] by simp
  qed
qed

lemma parseInt_noLeadingInteger:
  assumes "noLeadingInteger s"
  shows "parseInt (JString s) = NaN"
proof (cases "dropWhile isWhiteSpace s")
  case Nil
  show ?thesis unfolding parseInt_def ToString.simps Nil by simp
next
  case (Cons c r)
  have sign: "\<not> isDigit CHR ''-''" "\<not> isDigit CHR ''+''"
    by (simp_all add: isDigit_def)
  show ?thesis
  proof (cases "c = CHR ''-'' \<or> c = CHR ''+''")
    case True
    with assms Cons have "takeWhile isDigit r = []"
      by (cases r) (auto simp: noLeadingInteger_def)
    with True show ?thesis unfolding parseInt_def ToString.simps Cons by auto
  next
    case False
    with assms Cons have "\<not> isDigit c" by (simp add: noLeadingInteger_def)
    with False show ?thesis unfolding parseInt_def ToString.simps Cons by simp
  qed
qed

lemma clampInteger_Fin: "parseInt v = Fin p \<Longrightarrow> clampInteger v lo hi fb = min hi (max lo p)"
  by (simp add: clampInteger_def)

lemma clampInteger_NaN: "parseInt v = NaN \<Longrightarrow> clampInteger v lo hi fb = fb"
  by (simp add: clampInteger_def)

lemma clampInteger_range:
  "lo \<le> hi \<Longrightarrow> lo \<le> fb \<Longrightarrow> fb \<le> hi \<Longrightarrow>
   lo \<le> clampInteger v lo hi fb \<and> clampInteger v lo hi fb \<le> hi"
  by (cases "parseInt v") (auto simp: clampInteger_def Let_def)

lemma dropWhile_all_append: "\<forall>c \<in> set xs. P c \<Longrightarrow> dropWhile P (xs @ ys) = dropWhile P ys"
  by (induction xs) auto

lemma takeWhile_digits_rest:
  assumes "\<forall>c \<in> set ds. isDigit c" and "rest = [] \<or> \<not> isDigit (hd rest)"
  shows "takeWhile isDigit (ds @ rest) = ds"
proof -
  have "takeWhile isDigit rest = []" using assms(2) by (cases rest) auto
  with assms(1) show ?thesis by (simp add: takeWhile_append2)
qed

lemma parseInt_startsWithInteger:
  assumes "startsWithInteger s neg ds"
  shows "parseInt (JString s) =
           (if doubleOverflow \<le> digitsValue ds then (if neg then NegInfinity else PosInfinity)
            else Fin (if neg then - digitsValue ds else digitsValue ds))"
proof -
  from assms obtain ws sg rest where ne: "ds \<noteq> []" and dig: "\<forall>c \<in> set ds. isDigit c"
    and s: "s = ws @ sg @ ds @ rest" and ws: "\<forall>c \<in> set ws. isWhiteSpace c"
    and sg: "if neg then sg = ''-'' else sg = [] \<or> sg = ''+''"
    and rest: "rest = [] \<or> \<not> isDigit (hd rest)"
    unfolding startsWithInteger_def by blast
  obtain c r where cr: "ds = c # r" using ne by (cases ds) auto
  with dig have c: "isDigit c" by simp
  then have cn: "\<not> isWhiteSpace c" "c \<noteq> CHR ''-''" "c \<noteq> CHR ''+''"
    using isDigit_not_sign_or_space by blast+
  have tw: "takeWhile isDigit (ds @ rest) = ds"
    by (rule takeWhile_digits_rest[OF dig rest])
  have sign_ws: "\<not> isWhiteSpace CHR ''-''" "\<not> isWhiteSpace CHR ''+''"
    by (simp_all add: isWhiteSpace_def)
  have S: "dropWhile isWhiteSpace s = sg @ ds @ rest"
  proof -
    have "dropWhile isWhiteSpace s = dropWhile isWhiteSpace (sg @ ds @ rest)"
      unfolding s by (rule dropWhile_all_append[OF ws])
    also have "\<dots> = sg @ ds @ rest"
      using sg cn(1) sign_ws cr by (auto split: if_splits)
    finally show ?thesis .
  qed
  show ?thesis
  proof (cases neg)
    case True
    with sg have "dropWhile isWhiteSpace s = CHR ''-'' # (ds @ rest)" using S by simp
    then show ?thesis
      unfolding parseInt_def ToString.simps Let_def using tw ne True by simp
  next
    case False
    with sg consider "sg = []" | "sg = ''+''" by auto
    then show ?thesis
    proof cases
      case 1
      then have "dropWhile isWhiteSpace s = c # (r @ rest)" using S cr by simp
      moreover have "takeWhile isDigit (c # (r @ rest)) = ds" using tw cr by simp
      ultimately show ?thesis
        unfolding parseInt_def ToString.simps Let_def using ne False cn
        by (simp del: takeWhile.simps)
    next
      case 2
      then have "dropWhile isWhiteSpace s = CHR ''+'' # (ds @ rest)" using S by simp
      then show ?thesis
        unfolding parseInt_def ToString.simps Let_def using tw ne False by simp
    qed
  qed
qed

lemma safe_below_overflow: "\<bar>sint (w :: 54 word)\<bar> < doubleOverflow"
proof -
  have "sint w < 2 ^ 53" "- (2 ^ 53) \<le> sint w"
    using sint_lt[of w] sint_ge[of w] by simp_all
  moreover have "(2::int) ^ 53 < doubleOverflow" by (simp add: doubleOverflow_def)
  ultimately show ?thesis by linarith
qed

lemma parseInt_JInt: "parseInt (JInt w) = Fin (sint w)"
  using parseInt_decimal[OF safe_below_overflow[of w]] by (simp add: parseInt_def)

lemma clampInteger_infinite:
  "parseInt v = PosInfinity \<or> parseInt v = NegInfinity \<Longrightarrow> clampInteger v lo hi fb = fb"
  by (auto simp: clampInteger_def)

lemma every_string_classified:
  "noLeadingInteger s \<or> (\<exists>neg ds. startsWithInteger s neg ds)"
proof (cases "noLeadingInteger s")
  case True
  then show ?thesis by simp
next
  case False
  let ?ws = "takeWhile isWhiteSpace s"
  let ?S = "dropWhile isWhiteSpace s"
  have split: "s = ?ws @ ?S" by simp
  have ws: "\<forall>c \<in> set ?ws. isWhiteSpace c" by (auto dest: set_takeWhileD)
  from False obtain c r where S: "?S = c # r"
    by (cases ?S) (auto simp: noLeadingInteger_def)
  have shape: "startsWithInteger s neg (takeWhile isDigit t)"
    if t: "?S = sg @ t" and sg: "if neg then sg = ''-'' else sg = [] \<or> sg = ''+''"
      and d: "takeWhile isDigit t \<noteq> []" for sg t neg
  proof -
    let ?ds = "takeWhile isDigit t"
    let ?rest = "dropWhile isDigit t"
    have "s = ?ws @ sg @ ?ds @ ?rest" using split t by simp
    moreover have "?rest = [] \<or> \<not> isDigit (hd ?rest)"
      by (metis hd_dropWhile)
    moreover have "\<forall>c \<in> set ?ds. isDigit c" by (auto dest: set_takeWhileD)
    ultimately show ?thesis
      unfolding startsWithInteger_def using ws sg d by blast
  qed
  show ?thesis
  proof (cases "c = CHR ''-'' \<or> c = CHR ''+''")
    case True
    with False S obtain c' r' where r: "r = c' # r'" "isDigit c'"
      by (cases r) (auto simp: noLeadingInteger_def)
    then have d: "takeWhile isDigit r \<noteq> []" by simp
    from True show ?thesis
    proof
      assume "c = CHR ''-''"
      then have "startsWithInteger s True (takeWhile isDigit r)"
        using S d by (intro shape[where sg = "''-''"]) simp_all
      then show ?thesis by blast
    next
      assume "c = CHR ''+''"
      then have "startsWithInteger s False (takeWhile isDigit r)"
        using S d by (intro shape[where sg = "''+''"]) simp_all
      then show ?thesis by blast
    qed
  next
    case nosign: False
    with False S have "isDigit c" by (simp add: noLeadingInteger_def)
    then have "takeWhile isDigit (c # r) \<noteq> []" by simp
    then have "startsWithInteger s False (takeWhile isDigit (c # r))"
      using S by (intro shape[where sg = "[]"]) simp_all
    then show ?thesis by blast
  qed
qed

lemma parseInt_decimal_overflow:
  assumes "doubleOverflow \<le> i"
  shows "parseInt (JString (decimal i)) = PosInfinity"
proof -
  have "0 \<le> i" using assms by (simp add: doubleOverflow_def)
  then have d: "decimal i = decimalNat (nat i)" by (simp add: decimal_def)
  have v: "digitsValue (decimalNat (nat i)) = i"
    using decimalNat_value[of "nat i"] \<open>0 \<le> i\<close> by simp
  show ?thesis
    unfolding d using parseInt_digits[OF decimalNat_digits decimalNat_nonempty, of "nat i"] v assms
    by simp
qed

lemma startsWithIntegerI:
  assumes "ds \<noteq> []" and "\<forall>c \<in> set ds. isDigit c"
    and "\<forall>c \<in> set ws. isWhiteSpace c"
    and "if neg then sg = ''-'' else sg = [] \<or> sg = ''+''"
    and "rest = [] \<or> \<not> isDigit (hd rest)"
  shows "startsWithInteger (ws @ sg @ ds @ rest) neg ds"
  unfolding startsWithInteger_def using assms by blast

text \<open>
  C6, as stated, fails in three ways. An input without a leading integer is not clamped to
  a bound: \<open>abc\<close> gives the depth 2 and the limit 20. A numeric input is read up to its
  first character that is not a digit: \<open>1e3\<close> is read as 1, so as depth it gives 1 and not
  3. A decimal integer too large for a double is read as an infinity and gives the
  default: the digits of \<open>2^1024\<close> give the depth 2 and not 3.
\<close>

theorem parseGraphParams_non_numeric_counterexample:
  "depth (parseGraphParams (JString ''abc'') (JString ''abc'')) \<notin> {1, 3} \<and>
   limit (parseGraphParams (JString ''abc'') (JString ''abc'')) \<notin> {1, 30} \<and>
   depth (parseGraphParams (JString ''1e3'') JUndefined) = 1 \<and>
   depth (parseGraphParams (JString (decimal (2 ^ 1024))) JUndefined) = 2"
proof -
  have abc: "parseInt (JString ''abc'') = NaN"
    by (rule parseInt_noLeadingInteger)
       (simp add: noLeadingInteger_def isWhiteSpace_def isDigit_def)
  have "startsWithInteger ''1e3'' False ''1''"
    using startsWithIntegerI[of "''1''" "[]" False "[]" "''e3''"]
    by (simp add: isDigit_def)
  from parseInt_startsWithInteger[OF this]
  have e: "parseInt (JString ''1e3'') = Fin 1"
    by (simp add: digitsValue_def digitVal_def doubleOverflow_def)
  have "doubleOverflow \<le> 2 ^ 1024" by (simp add: doubleOverflow_def)
  then have big: "parseInt (JString (decimal (2 ^ 1024))) = PosInfinity"
    by (rule parseInt_decimal_overflow)
  show ?thesis
    using abc e big
    by (simp add: parseGraphParams_def clampInteger_NaN clampInteger_Fin clampInteger_infinite)
qed

text \<open>
  C6 (amended). For every input of \<open>parseGraphParams\<close> (absent, a string of code units
  below 256, or a safe integer) the depth lies in [1,3] and the limit in [1,30]. An absent
  parameter gives its default, 2 for the depth and 20 for the limit, whatever the other
  parameter is. A safe integer is clamped to the interval. A string that starts with an
  integer (after white space and an optional sign, and whatever follows the digits) is
  clamped to the interval when a double can hold the integer, so that \<open>99\<close> gives the
  depth 3 and \<open>-5\<close> the limit 1, and gives the default when the integer is read as an
  infinity. A string that does not start with an integer gives the default rather than a
  bound or a rejection. Every string is of one of these two kinds.
\<close>

theorem parseGraphParams_clamps_or_defaults:
  "(1 \<le> depth (parseGraphParams d l) \<and> depth (parseGraphParams d l) \<le> 3 \<and>
    1 \<le> limit (parseGraphParams d l) \<and> limit (parseGraphParams d l) \<le> 30) \<and>
   (depth (parseGraphParams JUndefined l) = 2 \<and> limit (parseGraphParams d JUndefined) = 20) \<and>
   (depth (parseGraphParams (JInt w) l) = min 3 (max 1 (sint w)) \<and>
    limit (parseGraphParams d (JInt w)) = min 30 (max 1 (sint w))) \<and>
   (startsWithInteger s neg ds \<and> digitsValue ds < doubleOverflow \<longrightarrow>
      depth (parseGraphParams (JString s) l) =
        min 3 (max 1 (if neg then - digitsValue ds else digitsValue ds)) \<and>
      limit (parseGraphParams d (JString s)) =
        min 30 (max 1 (if neg then - digitsValue ds else digitsValue ds))) \<and>
   (startsWithInteger s' neg' ds' \<and> doubleOverflow \<le> digitsValue ds' \<longrightarrow>
      depth (parseGraphParams (JString s') l) = 2 \<and>
      limit (parseGraphParams d (JString s')) = 20) \<and>
   (\<bar>i\<bar> < doubleOverflow \<longrightarrow>
      depth (parseGraphParams (JString (decimal i)) l) = min 3 (max 1 i) \<and>
      limit (parseGraphParams d (JString (decimal i))) = min 30 (max 1 i)) \<and>
   (noLeadingInteger t \<longrightarrow>
      depth (parseGraphParams (JString t) l) = 2 \<and>
      limit (parseGraphParams d (JString t)) = 20) \<and>
   (noLeadingInteger u \<or> (\<exists>n ds. startsWithInteger u n ds))"
proof -
  have range: "1 \<le> depth (parseGraphParams d l) \<and> depth (parseGraphParams d l) \<le> 3 \<and>
    1 \<le> limit (parseGraphParams d l) \<and> limit (parseGraphParams d l) \<le> 30"
    using clampInteger_range[of 1 3 2 d] clampInteger_range[of 1 30 20 l]
    by (simp add: parseGraphParams_def)
  have "parseInt JUndefined = NaN"
    by (simp add: parseInt_def isWhiteSpace_def isDigit_def)
  then have dflt: "depth (parseGraphParams JUndefined l) = 2 \<and>
      limit (parseGraphParams d JUndefined) = 20"
    by (simp add: parseGraphParams_def clampInteger_NaN)
  have safe: "depth (parseGraphParams (JInt w) l) = min 3 (max 1 (sint w)) \<and>
    limit (parseGraphParams d (JInt w)) = min 30 (max 1 (sint w))"
    by (simp add: parseGraphParams_def clampInteger_Fin[OF parseInt_JInt])
  have fin: "depth (parseGraphParams (JString s) l) =
        min 3 (max 1 (if neg then - digitsValue ds else digitsValue ds)) \<and>
      limit (parseGraphParams d (JString s)) =
        min 30 (max 1 (if neg then - digitsValue ds else digitsValue ds))"
    if "startsWithInteger s neg ds" "digitsValue ds < doubleOverflow"
  proof -
    have "parseInt (JString s) = Fin (if neg then - digitsValue ds else digitsValue ds)"
      using parseInt_startsWithInteger[OF that(1)] that(2) by simp
    then show ?thesis by (simp add: parseGraphParams_def clampInteger_Fin)
  qed
  have inf: "depth (parseGraphParams (JString s') l) = 2 \<and>
      limit (parseGraphParams d (JString s')) = 20"
    if "startsWithInteger s' neg' ds'" "doubleOverflow \<le> digitsValue ds'"
  proof -
    have "parseInt (JString s') = PosInfinity \<or> parseInt (JString s') = NegInfinity"
      using parseInt_startsWithInteger[OF that(1)] that(2) by simp
    then show ?thesis by (simp add: parseGraphParams_def clampInteger_infinite)
  qed
  have num: "depth (parseGraphParams (JString (decimal i)) l) = min 3 (max 1 i) \<and>
      limit (parseGraphParams d (JString (decimal i))) = min 30 (max 1 i)"
    if "\<bar>i\<bar> < doubleOverflow"
    using parseInt_decimal[OF that] by (simp add: parseGraphParams_def clampInteger_Fin)
  have non: "depth (parseGraphParams (JString t) l) = 2 \<and>
      limit (parseGraphParams d (JString t)) = 20"
    if "noLeadingInteger t"
    using parseInt_noLeadingInteger[OF that] by (simp add: parseGraphParams_def clampInteger_NaN)
  have cls: "noLeadingInteger u \<or> (\<exists>n ds. startsWithInteger u n ds)"
    by (rule every_string_classified)
  show ?thesis using range dflt safe fin inf num non cls by blast
qed

theorem parseGraphParams_clamps_or_defaults_witness:
  "startsWithInteger [CHR 0xA0, CHR ''+'', CHR ''9'', CHR ''9'', CHR ''.'', CHR ''5''] False ''99'' \<and>
   digitsValue ''99'' < doubleOverflow \<and>
   depth (parseGraphParams
            (JString [CHR 0xA0, CHR ''+'', CHR ''9'', CHR ''9'', CHR ''.'', CHR ''5'']) JUndefined) = 3 \<and>
   startsWithInteger ''-5'' True ''5'' \<and>
   limit (parseGraphParams JUndefined (JString ''-5'')) = 1 \<and>
   startsWithInteger (decimal (2 ^ 1024)) False (decimal (2 ^ 1024)) \<and>
   doubleOverflow \<le> digitsValue (decimal (2 ^ 1024)) \<and>
   limit (parseGraphParams JUndefined (JString (decimal (2 ^ 1024)))) = 20 \<and>
   \<bar>99\<bar> < doubleOverflow \<and> decimal 99 = ''99'' \<and>
   depth (parseGraphParams (JString ''99'') JUndefined) = 3 \<and>
   noLeadingInteger ''abc'' \<and>
   depth (parseGraphParams (JString ''abc'') JUndefined) = 2 \<and>
   limit (parseGraphParams (JInt 30) (JInt 30)) = 30"
proof -
  let ?s = "[CHR 0xA0, CHR ''+'', CHR ''9'', CHR ''9'', CHR ''.'', CHR ''5'']"
  let ?big = "decimal (2 ^ 1024)"
  have a: "startsWithInteger ?s False ''99''"
    using startsWithIntegerI[of "''99''" "[CHR 0xA0]" False "''+''" "''.5''"]
    by (simp add: isDigit_def isWhiteSpace_def)
  have a': "digitsValue ''99'' = 99" by (simp add: digitsValue_def digitVal_def)
  have b: "startsWithInteger ''-5'' True ''5''"
    using startsWithIntegerI[of "''5''" "[]" True "''-''" "[]"]
    by (simp add: isDigit_def)
  have b': "digitsValue ''5'' = 5" by (simp add: digitsValue_def digitVal_def)
  have big0: "?big = decimalNat (2 ^ 1024)"
    by (simp add: decimal_def nat_power_eq)
  have c: "startsWithInteger ?big False ?big"
    unfolding big0
    using startsWithIntegerI[of "decimalNat (2 ^ 1024)" "[]" False "[]" "[]"]
      decimalNat_digits[of "2 ^ 1024"] decimalNat_nonempty[of "2 ^ 1024"]
    by simp
  have c': "digitsValue ?big = 2 ^ 1024"
    unfolding big0 using decimalNat_value[of "2 ^ 1024"] by simp
  have ov: "(99::int) < doubleOverflow" "(5::int) < doubleOverflow"
    "doubleOverflow \<le> 2 ^ 1024"
    by (simp_all add: doubleOverflow_def)
  have e: "decimal 99 = ''99''" by code_simp
  have f: "noLeadingInteger ''abc''"
    by (simp add: noLeadingInteger_def isWhiteSpace_def isDigit_def)
  have g: "sint (30 :: 54 word) = 30" by simp
  note t1 = parseGraphParams_clamps_or_defaults
      [of JUndefined JUndefined 30 ?s False "''99''" ?big False ?big 99 "''abc''" "''abc''"]
  note t2 = parseGraphParams_clamps_or_defaults
      [of JUndefined JUndefined 30 "''-5''" True "''5''" ?big False ?big 99 "''abc''" "''abc''"]
  have 1: "depth (parseGraphParams (JString ?s) JUndefined) = 3"
    using t1 a a' ov by simp
  have 2: "limit (parseGraphParams JUndefined (JString ''-5'')) = 1"
    using t2 b b' ov by simp
  have 3: "limit (parseGraphParams JUndefined (JString ?big)) = 20"
    using t1 c c' ov by simp
  have 4: "depth (parseGraphParams (JString ''99'') JUndefined) = 3"
    using t1 e ov by simp
  have 5: "depth (parseGraphParams (JString ''abc'') JUndefined) = 2"
    using t1 f by simp
  have 6: "limit (parseGraphParams (JInt 30) (JInt 30)) = 30"
    using parseGraphParams_clamps_or_defaults
      [of "JInt 30" "JInt 30" 30 ?s False "''99''" ?big False ?big 99 "''abc''" "''abc''"] g
    by simp
  show ?thesis
    using a a' b c c' ov e f 1 2 3 4 5 6 by simp
qed

section \<open>Computations that leave the graph alone\<close>

lemma keepsGraph_ret: "keepsGraph (ret x)"
  by (simp add: keepsGraph_def ret_def)

lemma keepsGraph_andThen:
  assumes "keepsGraph m" and "\<And>x. keepsGraph (f x)"
  shows "keepsGraph (andThen m f)"
  unfolding keepsGraph_def
proof
  fix s
  obtain r s' where ms: "m s = (r, s')" by (cases "m s")
  with assms(1) have k: "nodeMap s' = nodeMap s \<and> linkMap s' = linkMap s"
    unfolding keepsGraph_def by (metis snd_conv)
  show "nodeMap (snd (andThen m f s)) = nodeMap s \<and> linkMap (snd (andThen m f s)) = linkMap s"
  proof (cases r)
    case (Inl e)
    with ms k show ?thesis by (simp add: andThen_def)
  next
    case (Inr x)
    with ms have "andThen m f s = f x s'" by (simp add: andThen_def)
    with assms(2)[of x] k show ?thesis unfolding keepsGraph_def by simp
  qed
qed

lemma keepsGraph_forEach:
  assumes "\<And>x. keepsGraph (f x)"
  shows "keepsGraph (forEach f xs)"
  by (induction xs) (auto intro!: keepsGraph_ret keepsGraph_andThen assms)

lemma keepsGraph_requestOpenAlex: "keepsGraph (requestOpenAlex up req)"
  by (simp add: keepsGraph_def requestOpenAlex_def Let_def split: sum.split)

lemma keepsGraph_getWorkById: "keepsGraph (getWorkById up i)"
  unfolding getWorkById_def
  by (auto split: option.split intro!: keepsGraph_ret keepsGraph_andThen keepsGraph_requestOpenAlex)

lemma keepsGraph_getWorksByIds: "keepsGraph (getWorksByIds up ids)"
  unfolding getWorksByIds_def Let_def
  by (auto intro!: keepsGraph_ret keepsGraph_andThen keepsGraph_requestOpenAlex keepsGraph_forEach)

lemma keepsGraph_getCitingWorks: "keepsGraph (getCitingWorks up i n)"
  unfolding getCitingWorks_def
  by (auto split: option.split intro!: keepsGraph_ret keepsGraph_andThen keepsGraph_requestOpenAlex)

lemma keepsGraph_getTopReferences: "keepsGraph (getTopReferences up p k)"
  unfolding getTopReferences_def Let_def
  by (auto intro!: keepsGraph_ret keepsGraph_andThen keepsGraph_getWorksByIds)

lemma keepsGraph_getTopCitations: "keepsGraph (getTopCitations up p k)"
  unfolding getTopCitations_def
  by (auto intro!: keepsGraph_ret keepsGraph_andThen keepsGraph_getCitingWorks)

lemma cacheWork_graph [simp]:
  "nodeMap (cacheWork w s) = nodeMap s" "linkMap (cacheWork w s) = linkMap s"
  by (simp_all add: cacheWork_def)

lemma keepsGraph_getWorkOrFetch: "keepsGraph (getWorkOrFetch up i)"
  unfolding keepsGraph_def
proof
  fix s
  have k: "keepsGraph (andThen (getWorkById up i)
                (\<lambda>fetched. case fetched of
                     Some f \<Rightarrow> (\<lambda>s'. (Inr (Some f), cacheWork f s'))
                   | None \<Rightarrow> ret None))"
    by (rule keepsGraph_andThen[OF keepsGraph_getWorkById])
      (auto simp: keepsGraph_def ret_def split: option.split)
  show "nodeMap (snd (getWorkOrFetch up i s)) = nodeMap s \<and>
        linkMap (snd (getWorkOrFetch up i s)) = linkMap s"
    using k unfolding getWorkOrFetch_def keepsGraph_def
    by (cases "map_of (workCache s) i") auto
qed

lemma keepsGraph_expandParent: "keepsGraph (expandParent up sd k i)"
  unfolding expandParent_def
  by (auto split: option.split
      intro!: keepsGraph_ret keepsGraph_andThen keepsGraph_getWorkOrFetch
        keepsGraph_getTopReferences keepsGraph_getTopCitations)

lemma keepsGraph_levelPairs: "keepsGraph (levelPairs up sd lim frontier)"
  unfolding levelPairs_def
  by (auto intro!: keepsGraph_ret keepsGraph_andThen keepsGraph_forEach keepsGraph_expandParent)

section \<open>Invariants of the expansion\<close>

lemma acceptPairs_invariant:
  assumes step: "\<And>(p::work) c s. P s \<Longrightarrow> P (addLink (w_id p) (w_id c) sd (sideTag sd) (addNode c (sideTag sd) level s))"
    and "P s"
  shows "P (acceptPairs sd level limited s)"
  using \<open>P s\<close> unfolding acceptPairs_def
proof (induction limited arbitrary: s)
  case Nil
  then show ?case by simp
next
  case (Cons e limited)
  obtain p c where e: "e = (p, c)" by (cases e)
  have "P (addLink (w_id p) (w_id c) sd (sideTag sd) (addNode c (sideTag sd) level s))"
    by (rule step[OF Cons.prems])
  from Cons.IH[OF this] e show ?case by simp
qed

lemma expandFrom_invariant:
  assumes frame: "\<And>s s'. nodeMap s' = nodeMap s \<Longrightarrow> linkMap s' = linkMap s \<Longrightarrow> P s \<Longrightarrow> P s'"
    and step: "\<And>(p::work) c level s. P s \<Longrightarrow>
                 P (addLink (w_id p) (w_id c) sd (sideTag sd) (addNode c (sideTag sd) level s))"
    and "P s"
  shows "P (snd (expandFrom up sd lim level k frontier s))"
  using \<open>P s\<close>
proof (induction k arbitrary: level frontier s)
  case 0
  then show ?case by (simp add: ret_def)
next
  case (Suc k)
  show ?case
  proof (cases "frontier = []")
    case True
    with Suc.prems show ?thesis by (simp add: ret_def)
  next
    case False
    obtain r s1 where lp: "levelPairs up sd lim frontier s = (r, s1)"
      by (cases "levelPairs up sd lim frontier s")
    have "nodeMap s1 = nodeMap s" "linkMap s1 = linkMap s"
      using keepsGraph_levelPairs[of up sd lim frontier] lp unfolding keepsGraph_def
      by (metis snd_conv)+
    then have P1: "P s1" using frame Suc.prems by blast
    show ?thesis
    proof (cases r)
      case (Inl e)
      with lp False P1 show ?thesis by (simp add: andThen_def)
    next
      case (Inr flattened)
      have "P (acceptPairs sd level (limitedPairs lim flattened) s1)"
        by (rule acceptPairs_invariant[OF step P1])
      from Suc.IH[OF this] Inr lp False show ?thesis
        by (simp add: andThen_def Let_def)
    qed
  qed
qed

lemma expandSide_invariant:
  assumes frame: "\<And>s s'. nodeMap s' = nodeMap s \<Longrightarrow> linkMap s' = linkMap s \<Longrightarrow> P s \<Longrightarrow> P s'"
    and step: "\<And>(p::work) c level s. P s \<Longrightarrow>
                 P (addLink (w_id p) (w_id c) sd (sideTag sd) (addNode c (sideTag sd) level s))"
    and "P s"
  shows "P (snd (expandSide up sd dep lim cid s))"
  unfolding expandSide_def by (rule expandFrom_invariant[OF frame step \<open>P s\<close>])

lemma addNode_linkMap [simp]: "linkMap (addNode w sd d s) = linkMap s"
  by (simp add: addNode_def Let_def split: option.split)

lemma addNode_single_linkMap [simp]: "linkMap (addNode_single w sd d s) = linkMap s"
  by (simp add: addNode_single_def Let_def split: option.split)

lemma addLink_nodeMap [simp]: "nodeMap (addLink a b ty dir s) = nodeMap s"
  by (simp add: addLink_def Let_def)

lemma set_update_subset: "set (AList.update k v al) \<subseteq> insert (k, v) (set al)"
  by (induction al) auto

lemma update_values:
  "x \<in> snd ` set (AList.update k v al) \<Longrightarrow> x = v \<or> x \<in> snd ` set al"
  using set_update_subset[of k v al] by force

lemma addLink_coupled:
  assumes "linksCoupled s" and "coupled \<lparr> source = a, target = b, ltype = ty, direction = dir \<rparr>"
  shows "linksCoupled (addLink a b ty dir s)"
proof (cases "map_of (linkMap s) (linkKey a b ty) \<noteq> None")
  case True
  with assms(1) show ?thesis by (simp add: addLink_def)
next
  case False
  then have "linkMap (addLink a b ty dir s) =
      AList.update (linkKey a b ty) \<lparr> source = a, target = b, ltype = ty, direction = dir \<rparr> (linkMap s)"
    by (simp add: addLink_def)
  with assms show ?thesis
    unfolding linksCoupled_def by (metis update_values)
qed

lemma coupled_sideTag: "coupled \<lparr> source = a, target = b, ltype = sd, direction = sideTag sd \<rparr>"
  by (cases sd) (simp_all add: coupled_def sideTag_def)

lemma linksCoupled_frame: "linkMap s' = linkMap s \<Longrightarrow> linksCoupled s \<Longrightarrow> linksCoupled s'"
  by (simp add: linksCoupled_def)

lemma expandSide_linksCoupled:
  "linksCoupled s \<Longrightarrow> linksCoupled (snd (expandSide up sd dep lim cid s))"
proof (rule expandSide_invariant[where P = linksCoupled])
  show "linksCoupled s'" if "linkMap s' = linkMap s" "linksCoupled s" for s s' :: state
    using that by (rule linksCoupled_frame)
  show "linksCoupled (addLink (w_id p) (w_id c) sd (sideTag sd) (addNode c (sideTag sd) level s))"
    if "linksCoupled s" for p :: work and c level s
    by (rule addLink_coupled[OF _ coupled_sideTag]) (use that in \<open>simp add: linksCoupled_def\<close>)
qed

subsection \<open>The center node\<close>

lemma centerKeptD1: "centerKept cid s \<Longrightarrow> distinct (map fst (nodeMap s))"
  unfolding centerKept_def by (elim conjE)

lemma centerKeptD2:
  "centerKept cid s \<Longrightarrow> (k, n) \<in> set (nodeMap s) \<Longrightarrow> n_id n = k \<and> (n_side n = center \<longleftrightarrow> k = cid)"
  unfolding centerKept_def by (elim conjE, drule bspec, assumption, simp)

lemma centerKeptD3:
  "centerKept cid s \<Longrightarrow> \<exists>n. map_of (nodeMap s) cid = Some n \<and> n_side n = center \<and> n_depth n = 0"
  unfolding centerKept_def by (elim conjE)

lemma centerKeptI:
  assumes "distinct (map fst (nodeMap s))"
    and "\<And>k n. (k, n) \<in> set (nodeMap s) \<Longrightarrow> n_id n = k \<and> (n_side n = center \<longleftrightarrow> k = cid)"
    and "\<exists>n. map_of (nodeMap s) cid = Some n \<and> n_side n = center \<and> n_depth n = 0"
  shows "centerKept cid s"
  unfolding centerKept_def
proof (intro conjI ballI)
  show "distinct (map fst (nodeMap s))" by (rule assms(1))
  show "case x of (k, n) \<Rightarrow> n_id n = k \<and> (n_side n = center) = (k = cid)" if "x \<in> set (nodeMap s)" for x
    using assms(2)[of "fst x" "snd x"] that by (cases x) simp
  show "\<exists>n. map_of (nodeMap s) cid = Some n \<and> n_side n = center \<and> n_depth n = 0" by (rule assms(3))
qed

lemma addNode_nodeMap:
  "nodeMap (addNode w sd d s) =
     AList.update (w_id w)
       (case map_of (nodeMap s) (w_id w) of
          None \<Rightarrow> nodeOf w sd d
        | Some existing \<Rightarrow>
            (nodeOf w sd d)\<lparr> n_side := (if n_side existing = sd \<or> n_side existing = center
                                        then n_side existing
                                        else if sd = center then center else both),
                              n_depth := min (n_depth existing) d \<rparr>)
       (nodeMap s)"
  by (simp add: addNode_def Let_def split: option.split)

lemma addNode_single_nodeMap:
  "nodeMap (addNode_single w sd d s) =
     AList.update (w_id w)
       (case map_of (nodeMap s) (w_id w) of
          None \<Rightarrow> nodeOf w sd d
        | Some existing \<Rightarrow>
            (nodeOf w sd d)\<lparr> n_side := (if n_side existing = center \<or> sd = center then center
                                        else if n_side existing \<noteq> sd then both
                                        else n_side existing),
                              n_depth := min (n_depth existing) d \<rparr>)
       (nodeMap s)"
  by (simp add: addNode_single_def Let_def split: option.split)

lemma centerKept_update:
  assumes inv: "centerKept cid s"
    and nm: "nodeMap s' = AList.update k v (nodeMap s)"
    and idv: "n_id v = k"
    and new: "map_of (nodeMap s) k = None \<Longrightarrow> n_side v \<noteq> center"
    and old: "\<And>e. map_of (nodeMap s) k = Some e \<Longrightarrow>
                (n_side v = center \<longleftrightarrow> n_side e = center) \<and> (n_depth e = 0 \<longrightarrow> n_depth v = 0)"
  shows "centerKept cid s'"
proof -
  have d: "distinct (map fst (nodeMap s))"
    by (rule centerKeptD1[OF inv])
  have all: "n_id n = k \<and> (n_side n = center \<longleftrightarrow> k = cid)" if "(k, n) \<in> set (nodeMap s)" for k n
    by (rule centerKeptD2[OF inv that])
  have "\<exists>n. map_of (nodeMap s) cid = Some n \<and> n_side n = center \<and> n_depth n = 0"
    by (rule centerKeptD3[OF inv])
  then obtain cn where cn: "map_of (nodeMap s) cid = Some cn" "n_side cn = center" "n_depth cn = 0"
    by blast
  have side_v: "n_side v = center \<longleftrightarrow> k = cid"
  proof (cases "map_of (nodeMap s) k")
    case None
    with cn(1) have "k \<noteq> cid" by (auto simp del: map_of_eq_Some_iff)
    with new[OF None] show ?thesis by simp
  next
    case (Some e)
    then have "(k, e) \<in> set (nodeMap s)" by (rule map_of_SomeD)
    from all[OF this] old[OF Some] show ?thesis by simp
  qed
  have 1: "distinct (map fst (nodeMap s'))"
    using d nm by (simp add: distinct_update)
  have 2: "n_id n = k' \<and> (n_side n = center \<longleftrightarrow> k' = cid)" if "(k', n) \<in> set (nodeMap s')" for k' n
  proof -
    from that nm have "(k', n) = (k, v) \<or> (k', n) \<in> set (nodeMap s)"
      using set_update_subset[of k v "nodeMap s"] by auto
    then show ?thesis
    proof
      assume "(k', n) = (k, v)"
      then show ?thesis using idv side_v by simp
    next
      assume "(k', n) \<in> set (nodeMap s)"
      then show ?thesis by (rule all)
    qed
  qed
  have 3: "\<exists>n. map_of (nodeMap s') cid = Some n \<and> n_side n = center \<and> n_depth n = 0"
  proof (cases "k = cid")
    case True
    have "map_of (nodeMap s') cid = Some v" using True nm by (simp add: update_conv')
    moreover have "n_side v = center" using side_v True by simp
    moreover have "n_depth v = 0" using old[of cn] cn True by simp
    ultimately show ?thesis by blast
  next
    case False
    then have "map_of (nodeMap s') cid = Some cn" using cn(1) nm by (simp add: update_conv')
    with cn show ?thesis by blast
  qed
  show ?thesis by (rule centerKeptI[OF 1 2 3])
qed

lemma addNode_centerKept:
  assumes "centerKept cid s" and "sd \<noteq> center"
  shows "centerKept cid (addNode w sd d s)"
proof (rule centerKept_update[OF assms(1) addNode_nodeMap])
  show "n_id (case map_of (nodeMap s) (w_id w) of
          None \<Rightarrow> nodeOf w sd d
        | Some existing \<Rightarrow>
            (nodeOf w sd d)\<lparr> n_side := (if n_side existing = sd \<or> n_side existing = center
                                        then n_side existing
                                        else if sd = center then center else both),
                              n_depth := min (n_depth existing) d \<rparr>) = w_id w"
    by (simp add: nodeOf_def split: option.split)
next
  show "n_side (case map_of (nodeMap s) (w_id w) of
          None \<Rightarrow> nodeOf w sd d
        | Some existing \<Rightarrow>
            (nodeOf w sd d)\<lparr> n_side := (if n_side existing = sd \<or> n_side existing = center
                                        then n_side existing
                                        else if sd = center then center else both),
                              n_depth := min (n_depth existing) d \<rparr>) \<noteq> center"
    if "map_of (nodeMap s) (w_id w) = None"
    using that assms(2) by (simp add: nodeOf_def)
next
  fix e assume "map_of (nodeMap s) (w_id w) = Some e"
  then show "(n_side (case map_of (nodeMap s) (w_id w) of
          None \<Rightarrow> nodeOf w sd d
        | Some existing \<Rightarrow>
            (nodeOf w sd d)\<lparr> n_side := (if n_side existing = sd \<or> n_side existing = center
                                        then n_side existing
                                        else if sd = center then center else both),
                              n_depth := min (n_depth existing) d \<rparr>) = center \<longleftrightarrow> n_side e = center) \<and>
        (n_depth e = 0 \<longrightarrow> n_depth (case map_of (nodeMap s) (w_id w) of
          None \<Rightarrow> nodeOf w sd d
        | Some existing \<Rightarrow>
            (nodeOf w sd d)\<lparr> n_side := (if n_side existing = sd \<or> n_side existing = center
                                        then n_side existing
                                        else if sd = center then center else both),
                              n_depth := min (n_depth existing) d \<rparr>) = 0)"
    using assms(2) by simp
qed

lemma addNode_single_centerKept:
  assumes "centerKept cid s" and "sd \<noteq> center"
  shows "centerKept cid (addNode_single w sd d s)"
proof (rule centerKept_update[OF assms(1) addNode_single_nodeMap])
  show "n_id (case map_of (nodeMap s) (w_id w) of
          None \<Rightarrow> nodeOf w sd d
        | Some existing \<Rightarrow>
            (nodeOf w sd d)\<lparr> n_side := (if n_side existing = center \<or> sd = center then center
                                        else if n_side existing \<noteq> sd then both
                                        else n_side existing),
                              n_depth := min (n_depth existing) d \<rparr>) = w_id w"
    by (simp add: nodeOf_def split: option.split)
next
  show "n_side (case map_of (nodeMap s) (w_id w) of
          None \<Rightarrow> nodeOf w sd d
        | Some existing \<Rightarrow>
            (nodeOf w sd d)\<lparr> n_side := (if n_side existing = center \<or> sd = center then center
                                        else if n_side existing \<noteq> sd then both
                                        else n_side existing),
                              n_depth := min (n_depth existing) d \<rparr>) \<noteq> center"
    if "map_of (nodeMap s) (w_id w) = None"
    using that assms(2) by (simp add: nodeOf_def)
next
  fix e assume "map_of (nodeMap s) (w_id w) = Some e"
  then show "(n_side (case map_of (nodeMap s) (w_id w) of
          None \<Rightarrow> nodeOf w sd d
        | Some existing \<Rightarrow>
            (nodeOf w sd d)\<lparr> n_side := (if n_side existing = center \<or> sd = center then center
                                        else if n_side existing \<noteq> sd then both
                                        else n_side existing),
                              n_depth := min (n_depth existing) d \<rparr>) = center \<longleftrightarrow> n_side e = center) \<and>
        (n_depth e = 0 \<longrightarrow> n_depth (case map_of (nodeMap s) (w_id w) of
          None \<Rightarrow> nodeOf w sd d
        | Some existing \<Rightarrow>
            (nodeOf w sd d)\<lparr> n_side := (if n_side existing = center \<or> sd = center then center
                                        else if n_side existing \<noteq> sd then both
                                        else n_side existing),
                              n_depth := min (n_depth existing) d \<rparr>) = 0)"
    using assms(2) by simp
qed

lemma centerKept_frame: "nodeMap s' = nodeMap s \<Longrightarrow> centerKept cid s \<Longrightarrow> centerKept cid s'"
  unfolding centerKept_def by (erule ssubst)

lemma sideTag_not_center: "sideTag sd \<noteq> center"
  by (simp add: sideTag_def)

lemma expandSide_centerKept:
  "centerKept c s \<Longrightarrow> centerKept c (snd (expandSide up sd dep lim cid s))"
proof (rule expandSide_invariant[where P = "centerKept c"])
  show "centerKept c s'" if "nodeMap s' = nodeMap s" "centerKept c s" for s s' :: state
    using that by (rule centerKept_frame)
  show "centerKept c (addLink (w_id p) (w_id ch) sd (sideTag sd) (addNode ch (sideTag sd) level s))"
    if "centerKept c s" for p :: work and ch level s
    by (rule centerKept_frame[OF addLink_nodeMap addNode_centerKept[OF that sideTag_not_center]])
qed

lemma addNode_center_first:
  assumes "nodeMap s = []"
  shows "centerKept (w_id c) (addNode c center 0 s)" "centerKept (w_id c) (addNode_single c center 0 s)"
  using assms by (auto intro!: centerKeptI simp: addNode_nodeMap addNode_single_nodeMap nodeOf_def)

section \<open>The result of the multi-level engine\<close>

lemma keepsGraphD:
  "keepsGraph m \<Longrightarrow> m s = (r, s') \<Longrightarrow> nodeMap s' = nodeMap s \<and> linkMap s' = linkMap s"
  unfolding keepsGraph_def by (metis snd_conv)

lemma andThen_Inr:
  assumes "andThen m f s = (Inr y, s')"
  obtains x s1 where "m s = (Inr x, s1)" and "f x s1 = (Inr y, s')"
  using assms unfolding andThen_def by (cases "m s") (auto split: sum.splits)

lemma buildGraphIO_Inr:
  assumes "buildGraphIO up input d l s = (Inr g, s')"
  obtains workId c s0 where "toOpenAlexId input = Some workId"
    and "getWorkById up workId s = (Inr (Some c), s0)"
    and "s' = snd (expandSide up cited_by (nat (depth (parseGraphParams d l))) (nat (limit (parseGraphParams d l))) (w_id c)
                (snd (expandSide up references (nat (depth (parseGraphParams d l))) (nat (limit (parseGraphParams d l))) (w_id c)
                   (addNode c center 0 s0))))"
    and "g = assemble c (depth (parseGraphParams d l)) (limit (parseGraphParams d l)) s'"
proof (cases "toOpenAlexId input")
  case None
  with assms show ?thesis by (simp add: buildGraphIO_def)
next
  case (Some workId)
  let ?p = "parseGraphParams d l"
  from assms Some obtain found s0 where g: "getWorkById up workId s = (Inr found, s0)"
    and rest: "(case found of
                     None \<Rightarrow>
                       (\<lambda>s. (Inl (Error ''Center work not found in OpenAlex.'' (Some NOT_FOUND)), s))
                   | Some c \<Rightarrow>
                       (\<lambda>s. andThen (expandSide up references (nat (depth ?p)) (nat (limit ?p)) (w_id c))
                              (\<lambda>_. andThen
                                      (expandSide up cited_by (nat (depth ?p)) (nat (limit ?p)) (w_id c))
                                      (\<lambda>_ s'. (Inr (assemble c (depth ?p) (limit ?p) s'), s')))
                              (addNode c center 0 s))) s0 = (Inr g, s')"
    unfolding buildGraphIO_def Let_def by (simp only: option.case) (erule andThen_Inr)
  from rest obtain c where c: "found = Some c" by (cases found) auto
  with rest have "andThen (expandSide up references (nat (depth ?p)) (nat (limit ?p)) (w_id c))
                              (\<lambda>_. andThen
                                      (expandSide up cited_by (nat (depth ?p)) (nat (limit ?p)) (w_id c))
                                      (\<lambda>_ s'. (Inr (assemble c (depth ?p) (limit ?p) s'), s')))
                              (addNode c center 0 s0) = (Inr g, s')"
    by simp
  then obtain u1 s1 where e1: "expandSide up references (nat (depth ?p)) (nat (limit ?p)) (w_id c) (addNode c center 0 s0) = (Inr u1, s1)"
    and r2: "andThen (expandSide up cited_by (nat (depth ?p)) (nat (limit ?p)) (w_id c))
                                      (\<lambda>_ s'. (Inr (assemble c (depth ?p) (limit ?p) s'), s')) s1 = (Inr g, s')"
    by (rule andThen_Inr)
  from r2 obtain u2 s2 where e2: "expandSide up cited_by (nat (depth ?p)) (nat (limit ?p)) (w_id c) s1 = (Inr u2, s2)"
    and fin: "(Inr (assemble c (depth ?p) (limit ?p) s2), s2) = (Inr g, s')"
    by (rule andThen_Inr) blast
  show ?thesis
  proof (rule that[OF Some])
    show "getWorkById up workId s = (Inr (Some c), s0)" using g c by simp
    show "s' = snd (expandSide up cited_by (nat (depth ?p)) (nat (limit ?p)) (w_id c)
                (snd (expandSide up references (nat (depth ?p)) (nat (limit ?p)) (w_id c)
                   (addNode c center 0 s0))))"
      using e1 e2 fin by simp
    show "g = assemble c (depth ?p) (limit ?p) s'" using fin by auto
  qed
qed

lemma buildGraphIO_invariants:
  assumes "buildGraphIO up input d l emptyState = (Inr g, s')"
  obtains c where "g = assemble c (depth (parseGraphParams d l)) (limit (parseGraphParams d l)) s'"
    and "centerKept (w_id c) s'" and "linksCoupled s'"
proof -
  from assms obtain workId c s0 where g: "getWorkById up workId emptyState = (Inr (Some c), s0)"
    and s': "s' = snd (expandSide up cited_by (nat (depth (parseGraphParams d l))) (nat (limit (parseGraphParams d l))) (w_id c)
                (snd (expandSide up references (nat (depth (parseGraphParams d l))) (nat (limit (parseGraphParams d l))) (w_id c)
                   (addNode c center 0 s0))))"
    and a: "g = assemble c (depth (parseGraphParams d l)) (limit (parseGraphParams d l)) s'"
    by (rule buildGraphIO_Inr)
  from keepsGraphD[OF keepsGraph_getWorkById g]
  have e: "nodeMap s0 = []" "linkMap s0 = []" by (simp_all add: emptyState_def)
  have "centerKept (w_id c) (addNode c center 0 s0)"
    by (rule addNode_center_first[OF e(1)])
  then have ck: "centerKept (w_id c) s'"
    unfolding s' by (intro expandSide_centerKept)
  have "linksCoupled (addNode c center 0 s0)"
    using e(2) by (simp add: linksCoupled_def)
  then have lc: "linksCoupled s'"
    unfolding s' by (intro expandSide_linksCoupled)
  show ?thesis by (rule that[OF a ck lc])
qed

lemma filter_center_values:
  assumes "distinct (map fst al)" and "map_of al cid = Some cn"
    and "\<And>k n. (k, n) \<in> set al \<Longrightarrow> (P n \<longleftrightarrow> k = cid)"
  shows "filter P (map snd al) = [cn]"
  using assms
proof (induction al)
  case Nil
  then show ?case by simp
next
  case (Cons a al)
  obtain k n where a: "a = (k, n)" by (cases a)
  show ?case
  proof (cases "k = cid")
    case True
    with Cons.prems(2) a have n: "n = cn" by simp
    have "P n" using Cons.prems(3)[of k n] a True by simp
    moreover have "filter P (map snd al) = []"
    proof -
      have "\<not> P n'" if "(k', n') \<in> set al" for k' n'
      proof -
        from that Cons.prems(1) a True have "k' \<noteq> cid" by force
        with Cons.prems(3)[of k' n'] that show ?thesis by simp
      qed
      then show ?thesis by (auto simp: filter_empty_conv)
    qed
    ultimately show ?thesis using a n by simp
  next
    case False
    have "\<not> P n" using Cons.prems(3)[of k n] a False by simp
    moreover have "filter P (map snd al) = [cn]"
    proof (rule Cons.IH)
      show "distinct (map fst al)" using Cons.prems(1) by simp
      show "map_of al cid = Some cn" using Cons.prems(2) a False by simp
      show "P n' = (k' = cid)" if "(k', n') \<in> set al" for k' n'
        using Cons.prems(3)[of k' n'] that by simp
    qed
    ultimately show ?thesis using a by simp
  qed
qed

lemma centerKept_filter:
  assumes "centerKept cid s"
  obtains cn where "filter (\<lambda>n. n_side n = center) (map snd (nodeMap s)) = [cn]"
    and "n_depth cn = 0" and "n_id cn = cid"
proof -
  from centerKeptD3[OF assms] obtain cn where cn: "map_of (nodeMap s) cid = Some cn"
    "n_side cn = center" "n_depth cn = 0" by blast
  have f: "filter (\<lambda>n. n_side n = center) (map snd (nodeMap s)) = [cn]"
    by (rule filter_center_values[OF centerKeptD1[OF assms] cn(1)])
       (use centerKeptD2[OF assms] in blast)
  have "(cid, cn) \<in> set (nodeMap s)" using cn(1) by (rule map_of_SomeD)
  then have "n_id cn = cid" using centerKeptD2[OF assms] by blast
  with f cn(3) show ?thesis by (rule that)
qed

lemma assemble_nodes:
  "nodes (assemble c dep lim s) =
     filter (\<lambda>n. n_id n = w_id c \<or> (\<exists>l \<in> set (links (assemble c dep lim s)). source l = n_id n \<or> target l = n_id n))
       (map snd (nodeMap s))"
  unfolding assemble_def Let_def by (auto intro!: filter_cong)

lemma assemble_meta:
  "meta (assemble c dep lim s) =
     \<lparr> centerWorkId = w_id c, meta_depth = dep, requestedDepth = None, meta_limit = lim \<rparr>"
  by (simp add: assemble_def Let_def)

lemma assemble_links_subset:
  "set (links (assemble c dep lim s)) \<subseteq> snd ` set (linkMap s)"
  by (auto simp: assemble_def Let_def)

lemma assemble_center:
  assumes "centerKept (w_id c) s"
  obtains cn where "filter (\<lambda>n. n_side n = center) (nodes (assemble c dep lim s)) = [cn]"
    and "n_depth cn = 0" and "n_id cn = w_id c"
proof -
  from assms obtain cn where f: "filter (\<lambda>n. n_side n = center) (map snd (nodeMap s)) = [cn]"
    and cn: "n_depth cn = 0" "n_id cn = w_id c" by (rule centerKept_filter)
  let ?Q = "\<lambda>n. n_id n = w_id c \<or> (\<exists>l \<in> set (links (assemble c dep lim s)). source l = n_id n \<or> target l = n_id n)"
  have "filter (\<lambda>n. n_side n = center) (nodes (assemble c dep lim s)) =
        filter ?Q (filter (\<lambda>n. n_side n = center) (map snd (nodeMap s)))"
    unfolding assemble_nodes by (simp add: conj_commute)
  also have "\<dots> = [cn]" using f cn(2) by simp
  finally show ?thesis using cn by (rule that)
qed

end
